theory Spec2Isabelle
  imports
    Main
    "HOL-Library.Char_ord"
    "HOL-Library.List_Lexorder"
    "HOL-Library.Product_Lexorder"
    "HOL-Library.Sublist"
begin

section \<open>Data model\<close>

text \<open>
  Both generators of \<^verbatim>\<open>ri-solr-diff.py\<close> yield tuples \<^verbatim>\<open>(pid, datetime)\<close>.
  A PID is a string, compared as Python compares strings (lexicographically, character
  by character); a timestamp is an instant, of which the program uses nothing but the
  linear order, modelled as an integer.
\<close>

type_synonym entry = "string \<times> int"

text \<open>
  The exceptions that the script can raise on well-formed responses. \<^verbatim>\<open>StopIteration\<close>
  is not among them: it is the regular end of a generator, and the only exception the
  script catches.
\<close>

datatype exn = NameError | IndexError

text \<open>
  A generator object in the middle of its life: the entries it is still going to yield,
  and how it ends after the last of them, by returning (\<^verbatim>\<open>StopIteration\<close>) or by
  raising. The page fetches it performs on the way do not depend on its consumer.
\<close>

datatype ending = StopIteration | Raises exn

type_synonym iterator = "entry list \<times> ending"

datatype pull = Item entry iterator | Stop | Raise exn

fun iter_next :: "iterator \<Rightarrow> pull" where
  "iter_next (x # xs, e) = Item x (xs, e)"
| "iter_next ([], StopIteration) = Stop"
| "iter_next ([], Raises ex) = Raise ex"

section \<open>The update trigger: class \<^verbatim>\<open>gsearch\<close>\<close>

text \<open>
  The object keeps the flag \<^verbatim>\<open>updated\<close>. The model records in addition what the
  object does to the outside: \<open>posted\<close>, the PIDs of the requests sent to GSearch in
  order, and \<open>logged\<close>, the PIDs written by \<^verbatim>\<open>logging.info\<close> after a request that
  came back with status 200. The GSearch service is a parameter: the status code it
  answers to the \<open>n\<close>-th request, for a PID.
\<close>

record gsearch =
  updated :: bool
  posted :: "string list"
  logged :: "string list"

type_synonym trigger = "nat \<Rightarrow> string \<Rightarrow> nat"

definition codes_ok :: nat where
  "codes_ok = 200"

definition gsearch_init :: gsearch where
  "gsearch_init = \<lparr>updated = False, posted = [], logged = []\<rparr>"

text \<open>Lines 152 and 153: the flag is set first.\<close>

definition mark_updated :: "gsearch \<Rightarrow> gsearch" where
  "mark_updated g = (if \<not> updated g then g\<lparr>updated := True\<rparr> else g)"

text \<open>Lines 155 to 166: then the request is sent and its status looked at.\<close>

definition post_update :: "trigger \<Rightarrow> string \<Rightarrow> gsearch \<Rightarrow> gsearch" where
  "post_update trig pid g =
     (let status_code = trig (length (posted g)) pid;
          g' = g\<lparr>posted := posted g @ [pid]\<rparr>
      in if status_code = codes_ok then g'\<lparr>logged := logged g' @ [pid]\<rparr> else g')"

definition update_pid :: "trigger \<Rightarrow> string \<Rightarrow> gsearch \<Rightarrow> gsearch" where
  "update_pid trig pid g = post_update trig pid (mark_updated g)"

section \<open>The merge loop of \<^verbatim>\<open>__main__\<close>\<close>

text \<open>
  The variables of the \<^verbatim>\<open>while\<close> loop: the two current tuples, the two iterators and
  the trigger object.
\<close>

record loop_state =
  ri_result :: entry
  solr_result :: entry
  ri :: iterator
  solr :: iterator
  gs :: gsearch

text \<open>
  How a statement inside the \<^verbatim>\<open>try\<close> block leaves: it goes on, it raises
  \<^verbatim>\<open>StopIteration\<close> (which \<^verbatim>\<open>except StopIteration: pass\<close> catches), or it raises
  something that nothing catches.
\<close>

datatype flow = Continue loop_state | Caught loop_state | Uncaught exn loop_state

text \<open>\<^verbatim>\<open>ri_result = ri.next()\<close> and \<^verbatim>\<open>solr_result = solr.next()\<close>.\<close>

definition ri_next :: "loop_state \<Rightarrow> flow" where
  "ri_next s =
     (case iter_next (ri s) of
        Item r it \<Rightarrow> Continue (s\<lparr>ri_result := r, ri := it\<rparr>)
      | Stop \<Rightarrow> Caught s
      | Raise e \<Rightarrow> Uncaught e s)"

definition solr_next :: "loop_state \<Rightarrow> flow" where
  "solr_next s =
     (case iter_next (solr s) of
        Item r it \<Rightarrow> Continue (s\<lparr>solr_result := r, solr := it\<rparr>)
      | Stop \<Rightarrow> Caught s
      | Raise e \<Rightarrow> Uncaught e s)"

definition flag :: "trigger \<Rightarrow> string \<Rightarrow> loop_state \<Rightarrow> loop_state" where
  "flag trig pid s = s\<lparr>gs := update_pid trig pid (gs s)\<rparr>"

text \<open>One pass through the body of \<^verbatim>\<open>while ri_result and solr_result\<close>.\<close>

definition loop_body :: "trigger \<Rightarrow> loop_state \<Rightarrow> flow" where
  "loop_body trig s =
     (let ri_pid = fst (ri_result s); ri_time = snd (ri_result s);
          solr_pid = fst (solr_result s); solr_time = snd (solr_result s)
      in if ri_time < solr_time then ri_next (flag trig ri_pid s)
         else if solr_time < ri_time then solr_next (flag trig solr_pid s)
         else if ri_pid < solr_pid then ri_next (flag trig ri_pid s)
         else if solr_pid < ri_pid then solr_next (flag trig solr_pid s)
         else (case ri_next s of
                 Continue s1 \<Rightarrow> solr_next s1
               | Caught s1 \<Rightarrow> Caught s1
               | Uncaught e s1 \<Rightarrow> Uncaught e s1))"

definition remaining :: "loop_state \<Rightarrow> nat" where
  "remaining s = length (fst (ri s)) + length (fst (solr s))"

lemma iter_next_shorter:
  "iter_next it = Item r it' \<Longrightarrow> length (fst it') < length (fst it)"
  by (cases it rule: iter_next.cases) auto

lemma ri_next_remaining:
  "ri_next s = Continue s' \<Longrightarrow> remaining s' < remaining s"
  by (auto simp: ri_next_def remaining_def split: pull.splits dest: iter_next_shorter)

lemma solr_next_remaining:
  "solr_next s = Continue s' \<Longrightarrow> remaining s' < remaining s"
  by (auto simp: solr_next_def remaining_def split: pull.splits dest: iter_next_shorter)

lemma remaining_flag [simp]: "remaining (flag trig pid s) = remaining s"
  by (simp add: flag_def remaining_def)

lemma loop_body_remaining:
  "loop_body trig s = Continue s' \<Longrightarrow> remaining s' < remaining s"
  unfolding loop_body_def Let_def
  by (auto split: if_splits flow.splits
      dest!: ri_next_remaining solr_next_remaining)

text \<open>
  The \<^verbatim>\<open>while\<close> loop. Its condition is always true (a tuple of two components is
  truthy), so it is left only by an exception.
\<close>

function merge_loop :: "trigger \<Rightarrow> loop_state \<Rightarrow> flow" where
  "merge_loop trig s =
     (case loop_body trig s of
        Continue s' \<Rightarrow> merge_loop trig s'
      | Caught s' \<Rightarrow> Caught s'
      | Uncaught e s' \<Rightarrow> Uncaught e s')"
  by pat_completeness auto
termination
  by (relation "measure (\<lambda>(trig, s). remaining s)") (auto dest: loop_body_remaining)

text \<open>What is left when the \<^verbatim>\<open>try\<close> statement is over.\<close>

record leftovers =
  raised :: "exn option"
  ri_left :: iterator
  solr_left :: iterator
  trigger_state :: gsearch

definition after_loop :: "flow \<Rightarrow> leftovers" where
  "after_loop f =
     (case f of
        Continue s \<Rightarrow> \<lparr>raised = None, ri_left = ri s, solr_left = solr s, trigger_state = gs s\<rparr>
      | Caught s \<Rightarrow> \<lparr>raised = None, ri_left = ri s, solr_left = solr s, trigger_state = gs s\<rparr>
      | Uncaught e s \<Rightarrow>
          \<lparr>raised = Some e, ri_left = ri s, solr_left = solr s, trigger_state = gs s\<rparr>)"

definition try_block :: "trigger \<Rightarrow> iterator \<Rightarrow> iterator \<Rightarrow> gsearch \<Rightarrow> leftovers" where
  "try_block trig ri0 solr0 g =
     (case iter_next ri0 of
        Stop \<Rightarrow> \<lparr>raised = None, ri_left = ri0, solr_left = solr0, trigger_state = g\<rparr>
      | Raise e \<Rightarrow> \<lparr>raised = Some e, ri_left = ri0, solr_left = solr0, trigger_state = g\<rparr>
      | Item r ri1 \<Rightarrow>
          (case iter_next solr0 of
             Stop \<Rightarrow> \<lparr>raised = None, ri_left = ri1, solr_left = solr0, trigger_state = g\<rparr>
           | Raise e \<Rightarrow>
               \<lparr>raised = Some e, ri_left = ri1, solr_left = solr0, trigger_state = g\<rparr>
           | Item s solr1 \<Rightarrow>
               after_loop (merge_loop trig
                 \<lparr>ri_result = r, solr_result = s, ri = ri1, solr = solr1, gs = g\<rparr>)))"

section \<open>The two leftover loops and the exit\<close>

text \<open>
  The first statement of both \<^verbatim>\<open>for\<close> bodies is \<^verbatim>\<open>logger.debug(...)\<close>. The module
  imports \<^verbatim>\<open>logging\<close> and never binds the name \<^verbatim>\<open>logger\<close>, so looking it up raises
  \<^verbatim>\<open>NameError\<close>.
\<close>

definition logger :: "exn + unit" where
  "logger = Inl NameError"

fun leftover :: "trigger \<Rightarrow> entry list \<Rightarrow> ending \<Rightarrow> gsearch \<Rightarrow> exn option \<times> gsearch" where
  "leftover trig [] StopIteration g = (None, g)"
| "leftover trig [] (Raises e) g = (Some e, g)"
| "leftover trig ((pid, t) # xs) e g =
     (case logger of
        Inl ex \<Rightarrow> (Some ex, g)
      | Inr u \<Rightarrow> leftover trig xs e (update_pid trig pid g))"

text \<open>
  The end of a run: \<^verbatim>\<open>exit(0)\<close> or \<^verbatim>\<open>exit(1)\<close>, or an uncaught exception, after which
  the interpreter prints the traceback and ends the process with status 1. Both carry the
  final state of the trigger object.
\<close>

datatype outcome = Exit int gsearch | Traceback exn gsearch

fun exit_status :: "outcome \<Rightarrow> int" where
  "exit_status (Exit c g) = c"
| "exit_status (Traceback e g) = 1"

fun final_gsearch :: "outcome \<Rightarrow> gsearch" where
  "final_gsearch (Exit c g) = g"
| "final_gsearch (Traceback e g) = g"

text \<open>The identifiers passed to the update trigger during a run, in order.\<close>

definition flagged :: "outcome \<Rightarrow> string list" where
  "flagged out = posted (final_gsearch out)"

text \<open>Lines 187 to 238 of the script, on the two iterators.\<close>

definition reconcile :: "trigger \<Rightarrow> iterator \<Rightarrow> iterator \<Rightarrow> outcome" where
  "reconcile trig ri0 solr0 =
     (let l = try_block trig ri0 solr0 gsearch_init
      in case raised l of
           Some e \<Rightarrow> Traceback e (trigger_state l)
         | None \<Rightarrow>
             (case leftover trig (fst (ri_left l)) (snd (ri_left l)) (trigger_state l) of
                (Some e, g) \<Rightarrow> Traceback e g
              | (None, g) \<Rightarrow>
                  (case leftover trig (fst (solr_left l)) (snd (solr_left l)) g of
                     (Some e, g') \<Rightarrow> Traceback e g'
                   | (None, g') \<Rightarrow> if updated g' then Exit 1 g' else Exit 0 g')))"

section \<open>The two query services\<close>

text \<open>
  The resource index and Solr are not part of the script. Each is modelled by what the
  script's requests ask of it: the objects it holds, filtered by the request's
  condition on the timestamp, in ascending order of timestamp and then identifier
  (\<^verbatim>\<open>ORDER BY ?timestamp ?obj\<close>, \<^verbatim>\<open>sort: '<field> asc, PID asc'\<close>), cut to the
  requested number of rows (\<^verbatim>\<open>limit\<close>, \<^verbatim>\<open>rows\<close>), a natural number. The HTTP status
  of the \<open>n\<close>-th response is the service's own affair. The objects do not change during
  a run, and every response that is OK is well-formed.
\<close>

record service =
  population :: "entry list"
  status_code :: "nat \<Rightarrow> nat"

definition by_time_pid :: "entry \<Rightarrow> int \<times> string" where
  "by_time_pid r = (snd r, fst r)"

text \<open>
  The condition the resource index query carries in \<^verbatim>\<open>%(filter)s\<close>: nothing,
  \<^verbatim>\<open>FILTER(?timestamp >= "s"^^xsd:dateTime)\<close> or \<^verbatim>\<open>FILTER(?timestamp > "s"^^xsd:dateTime)\<close>.
\<close>

datatype sparql_filter = NoFilter | FilterGe int | FilterGt int

fun sparql_holds :: "sparql_filter \<Rightarrow> int \<Rightarrow> bool" where
  "sparql_holds NoFilter t = True"
| "sparql_holds (FilterGe s) t = (s \<le> t)"
| "sparql_holds (FilterGt s) t = (s < t)"

text \<open>
  The filter query sent to Solr: none, or the range \<^verbatim>\<open><field>:{s TO *}\<close>. In Solr's
  range syntax a square bracket includes its bound and a curly bracket excludes it.
\<close>

datatype solr_fq = NoFq | RangeFrom int

fun fq_holds :: "solr_fq \<Rightarrow> int \<Rightarrow> bool" where
  "fq_holds NoFq t = True"
| "fq_holds (RangeFrom s) t = (s < t)"

record ri_response =
  ri_status :: nat
  results :: "entry list"

record solr_response =
  solr_status :: nat
  numFound :: nat
  docs :: "entry list"

definition ri_post :: "service \<Rightarrow> nat \<Rightarrow> sparql_filter \<Rightarrow> nat \<Rightarrow> ri_response" where
  "ri_post srv n flt limit =
     \<lparr>ri_status = status_code srv n,
      results = take limit (sort_key by_time_pid
        (filter (\<lambda>r. sparql_holds flt (snd r)) (population srv)))\<rparr>"

definition solr_post :: "service \<Rightarrow> nat \<Rightarrow> solr_fq \<Rightarrow> nat \<Rightarrow> solr_response" where
  "solr_post srv n fq rows =
     (let found = filter (\<lambda>r. fq_holds fq (snd r)) (population srv)
      in \<lparr>solr_status = status_code srv n,
          numFound = length found,
          docs = take rows (sort_key by_time_pid found)\<rparr>)"

section \<open>The generators\<close>

lemma filter_length_mono:
  "(\<And>x. x \<in> set xs \<Longrightarrow> P x \<Longrightarrow> Q x) \<Longrightarrow> length (filter P xs) \<le> length (filter Q xs)"
  by (induction xs) auto

lemma filter_length_less:
  assumes "\<And>x. x \<in> set xs \<Longrightarrow> P x \<Longrightarrow> Q x" and "y \<in> set xs" and "Q y" and "\<not> P y"
  shows "length (filter P xs) < length (filter Q xs)"
  using assms
proof (induction xs)
  case Nil
  then show ?case by simp
next
  case (Cons x xs)
  have mono: "length (filter P xs) \<le> length (filter Q xs)"
    using Cons.prems(1) by (intro filter_length_mono) auto
  show ?case
  proof (cases "y = x")
    case True
    with Cons.prems mono show ?thesis by simp
  next
    case False
    with Cons.prems have "y \<in> set xs" by simp
    with Cons have "length (filter P xs) < length (filter Q xs)" by auto
    with Cons.prems(1) show ?thesis by auto
  qed
qed

lemma last_page_in_population:
  assumes "take limit (sort_key k (filter F pop)) \<noteq> []"
  shows "last (take limit (sort_key k (filter F pop))) \<in> set pop
       \<and> F (last (take limit (sort_key k (filter F pop))))"
proof -
  have "last (take limit (sort_key k (filter F pop)))
          \<in> set (take limit (sort_key k (filter F pop)))"
    using assms by (rule last_in_set)
  then have "last (take limit (sort_key k (filter F pop))) \<in> set (sort_key k (filter F pop))"
    by (rule in_set_takeD)
  then show ?thesis by simp
qed

lemma sparql_holds_after:
  "sparql_holds flt t \<Longrightarrow> t < u \<Longrightarrow> sparql_holds flt u"
  by (cases flt) auto

lemma fq_holds_after:
  "fq_holds fq t \<Longrightarrow> t < u \<Longrightarrow> fq_holds fq u"
  by (cases fq) auto

text \<open>
  \<^verbatim>\<open>ri_generator.__iter__\<close> from the first request on: the entries yielded by the
  \<^verbatim>\<open>while\<close> loop that starts with the response to request number \<open>n\<close>, sent with the
  filter \<open>flt\<close>. The loop is left when a response is not OK and when a page is empty;
  after a page, the next request asks for the timestamps after the page's last one.
\<close>

function ri_pages :: "service \<Rightarrow> nat \<Rightarrow> sparql_filter \<Rightarrow> nat \<Rightarrow> entry list" where
  "ri_pages srv n flt limit =
     (let r = ri_post srv n flt limit
      in if ri_status r = codes_ok then
           (if length (results r) = 0 then []
            else results r @
              ri_pages srv (Suc n) (FilterGt (snd (last (results r)))) limit)
         else [])"
  by pat_completeness auto
termination
proof (relation "measure (\<lambda>(srv, n, flt, limit).
    length (filter (\<lambda>r. sparql_holds flt (snd r)) (population srv)))", goal_cases)
  case 1
  show ?case by simp
next
  case (2 srv n flt limit r)
  let ?page = "take limit (sort_key by_time_pid
        (filter (\<lambda>r. sparql_holds flt (snd r)) (population srv)))"
  define t where "t = snd (last ?page)"
  have eq: "results r = ?page"
    unfolding 2(1) ri_post_def ri_response.select_convs ..
  from 2(3) have ne: "?page \<noteq> []" unfolding eq length_0_conv .
  from last_page_in_population [OF ne]
  have mem: "last ?page \<in> set (population srv)" and ok: "sparql_holds flt t"
    unfolding t_def by blast+
  have "length (filter (\<lambda>r. sparql_holds (FilterGt t) (snd r)) (population srv))
      < length (filter (\<lambda>r. sparql_holds flt (snd r)) (population srv))"
  proof (rule filter_length_less [where y = "last ?page"])
    show "last ?page \<in> set (population srv)" by (rule mem)
    show "sparql_holds flt (snd (last ?page))" using ok unfolding t_def .
    show "\<not> sparql_holds (FilterGt t) (snd (last ?page))" unfolding t_def by simp
    fix x :: entry
    assume "sparql_holds (FilterGt t) (snd x)"
    then have "t < snd x" by simp
    then show "sparql_holds flt (snd x)" by (rule sparql_holds_after [OF ok])
  qed
  then show ?case unfolding eq t_def by simp
qed

text \<open>
  Lines 49 to 53: the filter of the first request, from the window boundary
  \<^verbatim>\<open>self.start\<close>.
\<close>

definition ri_start_filter :: "int option \<Rightarrow> sparql_filter" where
  "ri_start_filter start = (case start of None \<Rightarrow> NoFilter | Some s \<Rightarrow> FilterGe s)"

definition ri_generator :: "service \<Rightarrow> int option \<Rightarrow> nat \<Rightarrow> iterator" where
  "ri_generator srv start limit = (ri_pages srv 0 (ri_start_filter start) limit, StopIteration)"

text \<open>
  \<^verbatim>\<open>solr_generator.__iter__\<close> likewise. Here the loop is left when \<^verbatim>\<open>numFound\<close> is 0,
  so a response that matches objects and carries no document (\<^verbatim>\<open>rows\<close> is 0) reaches
  \<^verbatim>\<open>docs[-1]\<close>, which raises \<^verbatim>\<open>IndexError\<close>.
\<close>

function solr_pages :: "service \<Rightarrow> nat \<Rightarrow> solr_fq \<Rightarrow> nat \<Rightarrow> iterator" where
  "solr_pages srv n fq rows =
     (let r = solr_post srv n fq rows
      in if solr_status r = codes_ok then
           (if numFound r = 0 then ([], StopIteration)
            else if docs r = [] then ([], Raises IndexError)
            else (let rest = solr_pages srv (Suc n) (RangeFrom (snd (last (docs r)))) rows
                  in (docs r @ fst rest, snd rest)))
         else ([], StopIteration))"
  by pat_completeness auto
termination
proof (relation "measure (\<lambda>(srv, n, fq, rows).
    length (filter (\<lambda>r. fq_holds fq (snd r)) (population srv)))", goal_cases)
  case 1
  show ?case by simp
next
  case (2 srv n fq rows r)
  let ?page = "take rows (sort_key by_time_pid
        (filter (\<lambda>r. fq_holds fq (snd r)) (population srv)))"
  define t where "t = snd (last ?page)"
  have eq: "docs r = ?page"
    unfolding 2(1) solr_post_def Let_def solr_response.select_convs ..
  from 2(4) have ne: "?page \<noteq> []" unfolding eq .
  from last_page_in_population [OF ne]
  have mem: "last ?page \<in> set (population srv)" and ok: "fq_holds fq t"
    unfolding t_def by blast+
  have "length (filter (\<lambda>r. fq_holds (RangeFrom t) (snd r)) (population srv))
      < length (filter (\<lambda>r. fq_holds fq (snd r)) (population srv))"
  proof (rule filter_length_less [where y = "last ?page"])
    show "last ?page \<in> set (population srv)" by (rule mem)
    show "fq_holds fq (snd (last ?page))" using ok unfolding t_def .
    show "\<not> fq_holds (RangeFrom t) (snd (last ?page))" unfolding t_def by simp
    fix x :: entry
    assume "fq_holds (RangeFrom t) (snd x)"
    then have "t < snd x" by simp
    then show "fq_holds fq (snd x)" by (rule fq_holds_after [OF ok])
  qed
  then show ?case unfolding eq t_def by simp
qed

text \<open>Lines 120 and 121: the filter query of the first request.\<close>

definition solr_start_fq :: "int option \<Rightarrow> solr_fq" where
  "solr_start_fq start = (case start of None \<Rightarrow> NoFq | Some s \<Rightarrow> RangeFrom s)"

definition solr_generator :: "service \<Rightarrow> int option \<Rightarrow> nat \<Rightarrow> iterator" where
  "solr_generator srv start limit = solr_pages srv 0 (solr_start_fq start) limit"

section \<open>The whole run\<close>

text \<open>
  The window boundary \<^verbatim>\<open>start\<close> is computed once (lines 172 to 183) and handed to both
  constructors, as is \<^verbatim>\<open>--query-limit\<close>.
\<close>

definition main :: "service \<Rightarrow> service \<Rightarrow> trigger \<Rightarrow> int option \<Rightarrow> nat \<Rightarrow> outcome" where
  "main ri_srv solr_srv trig start limit =
     reconcile trig (ri_generator ri_srv start limit) (solr_generator solr_srv start limit)"

section \<open>Notions used to state the properties\<close>

text \<open>
  The variables as a statement of the \<^verbatim>\<open>try\<close> block leaves them.
\<close>

fun state_of :: "flow \<Rightarrow> loop_state" where
  "state_of (Continue s) = s"
| "state_of (Caught s) = s"
| "state_of (Uncaught e s) = s"

text \<open>
  A run that ends in a traceback.
\<close>

fun fatal :: "outcome \<Rightarrow> bool" where
  "fatal (Exit c g) = False"
| "fatal (Traceback e g) = True"

text \<open>
  The flag agrees with what was sent: it is set if and only if a request was.
\<close>

definition consistent :: "gsearch \<Rightarrow> bool" where
  "consistent g = (updated g = (posted g \<noteq> []))"

text \<open>
  What a service returns for a condition on the timestamp when the number of rows is
  not limited: the objects that satisfy it, in the order of the query.
\<close>

definition matching :: "(int \<Rightarrow> bool) \<Rightarrow> entry list \<Rightarrow> entry list" where
  "matching P pop = sort_key by_time_pid (filter (\<lambda>r. P (snd r)) pop)"

text \<open>
  The window of the specification: the window boundary is a starting timestamp below
  which records are excluded, so a record is in the window when there is no boundary or
  its timestamp is at or after it. The windowed population is what a service holds of it,
  in ascending order of timestamp and identifier.
\<close>

definition in_window :: "int option \<Rightarrow> int \<Rightarrow> bool" where
  "in_window start t = (case start of None \<Rightarrow> True | Some s \<Rightarrow> s \<le> t)"

definition windowed_population :: "int option \<Rightarrow> entry list \<Rightarrow> entry list" where
  "windowed_population start pop =
     sort_key by_time_pid (filter (\<lambda>r. in_window start (snd r)) pop)"

text \<open>
  No page of \<open>limit\<close> rows ends between two entries of \<open>xs\<close> that carry the same
  timestamp: the entry at each position \<open>k * limit - 1\<close> is strictly older than the
  entry at position \<open>k * limit\<close>.
\<close>

function page_ends_clean :: "nat \<Rightarrow> entry list \<Rightarrow> bool" where
  "page_ends_clean limit xs =
     (if limit = 0 \<or> length xs \<le> limit then True
      else snd (xs ! (limit - 1)) < snd (xs ! limit) \<and> page_ends_clean limit (drop limit xs))"
  by pat_completeness auto

termination
  by (relation "measure (\<lambda>(limit, xs). length xs)") auto

text \<open>
  The same service when every response is OK.
\<close>

definition healthy :: "service \<Rightarrow> service" where
  "healthy srv = srv\<lparr>status_code := \<lambda>i. codes_ok\<rparr>"

section \<open>The trigger object during a run\<close>

declare merge_loop.simps [simp del]

lemma updated_mark_updated [simp]: "updated (mark_updated g)"
  by (simp add: mark_updated_def)

lemma posted_mark_updated [simp]: "posted (mark_updated g) = posted g"
  by (simp add: mark_updated_def)

lemma updated_post_update [simp]: "updated (post_update trig pid g) = updated g"
  by (simp add: post_update_def Let_def)

lemma posted_post_update [simp]: "posted (post_update trig pid g) = posted g @ [pid]"
  by (simp add: post_update_def Let_def)

lemma updated_update_pid [simp]: "updated (update_pid trig pid g)"
  by (simp add: update_pid_def)

lemma posted_update_pid [simp]: "posted (update_pid trig pid g) = posted g @ [pid]"
  by (simp add: update_pid_def)

lemma consistent_init [simp]: "consistent gsearch_init"
  by (simp add: consistent_def gsearch_init_def)

lemma consistent_update_pid [simp]: "consistent (update_pid trig pid g)"
  by (simp add: consistent_def)

lemma gs_ri_next [simp]: "gs (state_of (ri_next s)) = gs s"
  by (simp add: ri_next_def split: pull.splits)

lemma gs_solr_next [simp]: "gs (state_of (solr_next s)) = gs s"
  by (simp add: solr_next_def split: pull.splits)

lemma gs_flag [simp]: "gs (flag trig pid s) = update_pid trig pid (gs s)"
  by (simp add: flag_def)

lemma ri_next_cases:
  obtains (item) r it where "iter_next (ri s) = Item r it"
      "ri_next s = Continue (s\<lparr>ri_result := r, ri := it\<rparr>)"
  | (stop) "iter_next (ri s) = Stop" "ri_next s = Caught s"
  | (raise) e where "iter_next (ri s) = Raise e" "ri_next s = Uncaught e s"
  by (cases "iter_next (ri s)") (auto simp: ri_next_def)

lemma gs_loop_body:
  "gs (state_of (loop_body trig s)) = gs s
   \<or> (\<exists>pid. gs (state_of (loop_body trig s)) = update_pid trig pid (gs s))"
proof -
  have eqcase: "gs (state_of (case ri_next s of Continue s1 \<Rightarrow> solr_next s1
            | Caught s1 \<Rightarrow> Caught s1 | Uncaught e s1 \<Rightarrow> Uncaught e s1)) = gs s"
    by (cases s rule: ri_next_cases) simp_all
  show ?thesis
    unfolding loop_body_def Let_def using eqcase by auto
qed

lemma consistent_loop_body:
  "consistent (gs s) \<Longrightarrow> consistent (gs (state_of (loop_body trig s)))"
  using gs_loop_body [of trig s] by auto

lemma updated_loop_body:
  "updated (gs s) \<Longrightarrow> updated (gs (state_of (loop_body trig s)))"
  using gs_loop_body [of trig s] by auto

lemma merge_loop_unfold:
  "loop_body trig s = Continue s' \<Longrightarrow> merge_loop trig s = merge_loop trig s'"
  "loop_body trig s = Caught s' \<Longrightarrow> merge_loop trig s = Caught s'"
  "loop_body trig s = Uncaught e s' \<Longrightarrow> merge_loop trig s = Uncaught e s'"
  by (simp_all add: merge_loop.simps)

lemma merge_loop_invariant:
  "(\<And>s. P (gs s) \<Longrightarrow> P (gs (state_of (loop_body trig s)))) \<Longrightarrow> P (gs s)
   \<Longrightarrow> P (gs (state_of (merge_loop trig s)))"
proof (induction trig s rule: merge_loop.induct)
  case (1 trig s)
  from "1.prems" have P': "P (gs (state_of (loop_body trig s)))" by blast
  show ?case
  proof (cases "loop_body trig s")
    case (Continue s')
    with P' have "P (gs s')" by simp
    with "1.IH" [OF Continue "1.prems"(1)] Continue show ?thesis
      by (simp add: merge_loop_unfold)
  next
    case (Caught s')
    with P' show ?thesis by (simp add: merge_loop_unfold)
  next
    case (Uncaught e s')
    with P' show ?thesis by (simp add: merge_loop_unfold)
  qed
qed

lemma gs_after_loop [simp]: "trigger_state (after_loop f) = gs (state_of f)"
  by (cases f) (simp_all add: after_loop_def)

lemma try_block_invariant:
  assumes "\<And>s. P (gs s) \<Longrightarrow> P (gs (state_of (loop_body trig s)))" and "P g"
  shows "P (trigger_state (try_block trig ri0 solr0 g))"
  using assms(2) merge_loop_invariant [of P trig, OF assms(1)]
  by (simp add: try_block_def split: pull.splits)

lemma leftover_gs [simp]: "snd (leftover trig xs e g) = g"
  by (cases "(trig, xs, e, g)" rule: leftover.cases) (simp_all add: logger_def)

lemma leftover_gsD: "leftover trig xs e g = (a, g') \<Longrightarrow> g' = g"
  using leftover_gs [of trig xs e g] by simp

lemma final_gsearch_reconcile:
  "final_gsearch (reconcile trig ri0 solr0) = trigger_state (try_block trig ri0 solr0 gsearch_init)"
  unfolding reconcile_def Let_def
  by (auto split: option.splits prod.splits dest!: leftover_gsD)

lemma consistent_reconcile: "consistent (final_gsearch (reconcile trig ri0 solr0))"
  unfolding final_gsearch_reconcile
  by (rule try_block_invariant) (auto intro: consistent_loop_body)

lemma exit_reconcile:
  "reconcile trig ri0 solr0 = Exit c g \<Longrightarrow> c = (if updated g then 1 else 0)"
  unfolding reconcile_def Let_def
  by (auto split: option.splits prod.splits if_splits)

lemma exit_status_reconcile:
  "exit_status (reconcile trig ri0 solr0) =
     (if flagged (reconcile trig ri0 solr0) \<noteq> [] \<or> fatal (reconcile trig ri0 solr0) then 1 else 0)"
proof (cases "reconcile trig ri0 solr0")
  case (Exit c g)
  from consistent_reconcile [of trig ri0 solr0] Exit have "updated g = (posted g \<noteq> [])"
    by (simp add: consistent_def)
  with exit_reconcile [OF Exit] Exit show ?thesis by (simp add: flagged_def)
next
  case (Traceback e g)
  then show ?thesis by simp
qed

lemma logged_update_pid: "prefix (logged g) (logged (update_pid trig pid g))"
  by (simp add: update_pid_def post_update_def mark_updated_def Let_def)

lemma sent_loop_body:
  assumes "prefix ps (posted (gs s)) \<and> prefix ls (logged (gs s))"
  shows "prefix ps (posted (gs (state_of (loop_body trig s))))
       \<and> prefix ls (logged (gs (state_of (loop_body trig s))))"
proof -
  from gs_loop_body [of trig s] consider
    (same) "gs (state_of (loop_body trig s)) = gs s"
    | (sent) pid where "gs (state_of (loop_body trig s)) = update_pid trig pid (gs s)"
    by blast
  then show ?thesis
  proof cases
    case same
    with assms show ?thesis by simp
  next
    case sent
    from assms have "prefix ps (posted (gs s) @ [pid])" by simp
    moreover from assms logged_update_pid [of "gs s" trig pid]
    have "prefix ls (logged (update_pid trig pid (gs s)))"
      by (blast intro: prefix_order.trans)
    ultimately show ?thesis using sent by simp
  qed
qed

lemma sent_merge_loop:
  "prefix (posted (gs s)) (posted (gs (state_of (merge_loop trig s))))
   \<and> prefix (logged (gs s)) (logged (gs (state_of (merge_loop trig s))))"
proof (rule merge_loop_invariant
    [where P = "\<lambda>g. prefix (posted (gs s)) (posted g) \<and> prefix (logged (gs s)) (logged g)"])
  fix s' :: loop_state
  assume "prefix (posted (gs s)) (posted (gs s')) \<and> prefix (logged (gs s)) (logged (gs s'))"
  then show "prefix (posted (gs s)) (posted (gs (state_of (loop_body trig s'))))
      \<and> prefix (logged (gs s)) (logged (gs (state_of (loop_body trig s'))))"
    by (rule sent_loop_body)
next
  show "prefix (posted (gs s)) (posted (gs s)) \<and> prefix (logged (gs s)) (logged (gs s))"
    by simp
qed

section \<open>Runs on identical streams\<close>

lemma loop_body_same:
  "ri_result s = solr_result s \<Longrightarrow>
   loop_body trig s =
     (case ri_next s of Continue s1 \<Rightarrow> solr_next s1 | Caught s1 \<Rightarrow> Caught s1
      | Uncaught e s1 \<Rightarrow> Uncaught e s1)"
  by (simp add: loop_body_def)

lemma merge_loop_same:
  "\<exists>r. merge_loop trig
     \<lparr>ri_result = x, solr_result = x, ri = (xs, StopIteration),
      solr = (xs, StopIteration), gs = g\<rparr>
   = Caught \<lparr>ri_result = r, solr_result = r, ri = ([], StopIteration),
      solr = ([], StopIteration), gs = g\<rparr>"
proof (induction xs arbitrary: x)
  case Nil
  have "loop_body trig \<lparr>ri_result = x, solr_result = x, ri = ([], StopIteration),
      solr = ([], StopIteration), gs = g\<rparr>
    = Caught \<lparr>ri_result = x, solr_result = x, ri = ([], StopIteration),
      solr = ([], StopIteration), gs = g\<rparr>"
    by (simp add: loop_body_same ri_next_def)
  then show ?case by (auto simp: merge_loop_unfold)
next
  case (Cons y ys)
  have "loop_body trig \<lparr>ri_result = x, solr_result = x, ri = (y # ys, StopIteration),
      solr = (y # ys, StopIteration), gs = g\<rparr>
    = Continue \<lparr>ri_result = y, solr_result = y, ri = (ys, StopIteration),
      solr = (ys, StopIteration), gs = g\<rparr>"
    by (simp add: loop_body_same ri_next_def solr_next_def)
  with Cons.IH [of y] show ?case by (auto simp: merge_loop_unfold)
qed

section \<open>What the generators yield\<close>

declare page_ends_clean.simps [simp del]
declare ri_pages.simps [simp del]
declare solr_pages.simps [simp del]

lemma results_ri_post:
  "results (ri_post srv n flt limit) = take limit (matching (sparql_holds flt) (population srv))"
  by (simp add: ri_post_def matching_def)

lemma ri_status_ri_post: "ri_status (ri_post srv n flt limit) = status_code srv n"
  by (simp add: ri_post_def)

lemma solr_status_solr_post: "solr_status (solr_post srv n fq rows) = status_code srv n"
  by (simp add: solr_post_def Let_def)

lemma numFound_solr_post:
  "numFound (solr_post srv n fq rows) = length (matching (fq_holds fq) (population srv))"
  by (simp add: solr_post_def matching_def Let_def)

lemma docs_solr_post:
  "docs (solr_post srv n fq rows) = take rows (matching (fq_holds fq) (population srv))"
  by (simp add: solr_post_def matching_def Let_def)

lemma ri_pages_unfold:
  "ri_pages srv n flt limit =
     (if status_code srv n = codes_ok then
        (if take limit (matching (sparql_holds flt) (population srv)) = [] then []
         else take limit (matching (sparql_holds flt) (population srv)) @
           ri_pages srv (Suc n)
             (FilterGt (snd (last (take limit (matching (sparql_holds flt) (population srv))))))
             limit)
      else [])"
  by (subst ri_pages.simps)
     (simp only: Let_def results_ri_post ri_status_ri_post length_0_conv)

lemma solr_pages_unfold:
  "solr_pages srv n fq rows =
     (if status_code srv n = codes_ok then
        (if matching (fq_holds fq) (population srv) = [] then ([], StopIteration)
         else if take rows (matching (fq_holds fq) (population srv)) = []
           then ([], Raises IndexError)
         else (take rows (matching (fq_holds fq) (population srv)) @
           fst (solr_pages srv (Suc n)
             (RangeFrom (snd (last (take rows (matching (fq_holds fq) (population srv))))))
             rows),
           snd (solr_pages srv (Suc n)
             (RangeFrom (snd (last (take rows (matching (fq_holds fq) (population srv))))))
             rows)))
      else ([], StopIteration))"
  by (subst solr_pages.simps)
     (simp only: Let_def numFound_solr_post docs_solr_post solr_status_solr_post length_0_conv)

lemma sorted_matching: "sorted (map snd (matching P pop))"
proof -
  have "sorted (map by_time_pid (matching P pop))"
    by (simp add: matching_def)
  then have "sorted_wrt (\<lambda>x y. by_time_pid x \<le> by_time_pid y) (matching P pop)"
    by (simp add: sorted_map)
  then have "sorted_wrt (\<lambda>x y. snd x \<le> snd y) (matching P pop)"
    by (rule sorted_wrt_mono_rel [rotated]) (auto simp: by_time_pid_def less_eq_prod_def)
  then show ?thesis by (simp add: sorted_map)
qed

lemma set_matching: "set (matching P pop) = {r \<in> set pop. P (snd r)}"
  by (auto simp: matching_def)

lemma le_last:
  assumes "sorted (map snd xs)" and "r \<in> set xs"
  shows "snd r \<le> snd (last xs)"
proof -
  from assms(2) have ne: "xs \<noteq> []" by auto
  then have split: "xs = butlast xs @ [last xs]" by simp
  from assms(1) have "sorted (map snd (butlast xs @ [last xs]))" using split by simp
  then have "\<forall>x \<in> set (butlast xs). snd x \<le> snd (last xs)"
    by (simp add: sorted_append)
  moreover from assms(2) split have "r \<in> set (butlast xs) \<or> r = last xs"
    by (metis Un_iff empty_iff empty_set set_ConsD set_append)
  ultimately show ?thesis by auto
qed

lemma matching_after:
  assumes "\<And>u. t < u \<Longrightarrow> P u"
  shows "matching (\<lambda>u. t < u) pop = filter (\<lambda>r. t < snd r) (matching P pop)"
proof -
  have "filter (\<lambda>r. t < snd r) (filter (\<lambda>r. P (snd r)) pop) = filter (\<lambda>r. t < snd r) pop"
    using assms by (auto intro: filter_cong)
  then show ?thesis
    by (simp add: matching_def filter_sort del: filter_filter)
qed

lemma after_page:
  assumes "sorted (map snd xs)" and "take limit xs \<noteq> []"
  shows "filter (\<lambda>r. snd (last (take limit xs)) < snd r) xs
       = filter (\<lambda>r. snd (last (take limit xs)) < snd r) (drop limit xs)"
proof -
  from assms(1) have "sorted (map snd (take limit xs))"
    by (simp add: sorted_map)
  then have "\<forall>r \<in> set (take limit xs). \<not> snd (last (take limit xs)) < snd r"
    using le_last by fastforce
  then have "filter (\<lambda>r. snd (last (take limit xs)) < snd r) (take limit xs) = []"
    by (simp add: filter_empty_conv)
  moreover have "filter (\<lambda>r. snd (last (take limit xs)) < snd r) xs
      = filter (\<lambda>r. snd (last (take limit xs)) < snd r) (take limit xs)
        @ filter (\<lambda>r. snd (last (take limit xs)) < snd r) (drop limit xs)"
    by (metis append_take_drop_id filter_append)
  ultimately show ?thesis by simp
qed

lemma after_clean_page:
  assumes srt: "sorted (map snd xs)" and pos: "0 < limit" and clean: "page_ends_clean limit xs"
  shows "filter (\<lambda>r. snd (last (take limit xs)) < snd r) (drop limit xs) = drop limit xs"
proof (cases "length xs \<le> limit")
  case True
  then show ?thesis by simp
next
  case False
  then have long: "limit < length xs" by simp
  with clean pos have step: "snd (xs ! (limit - 1)) < snd (xs ! limit)"
    by (subst (asm) page_ends_clean.simps) simp
  from long pos have "take limit xs \<noteq> []" by auto
  then have "last (take limit xs) = take limit xs ! (length (take limit xs) - 1)"
    by (rule last_conv_nth)
  with long pos have last: "last (take limit xs) = xs ! (limit - 1)"
    by (simp add: min_def)
  from long have dr: "drop limit xs = xs ! limit # drop (Suc limit) xs"
    by (simp add: Cons_nth_drop_Suc)
  from srt have "sorted (map snd (drop limit xs))"
    by (simp add: sorted_map)
  with dr have "\<forall>r \<in> set (drop limit xs). snd (xs ! limit) \<le> snd r"
    by auto
  with step last have "\<forall>r \<in> set (drop limit xs). snd (last (take limit xs)) < snd r"
    by auto
  then show ?thesis by (simp add: filter_id_conv)
qed

lemma page_ends_clean_drop:
  "0 < limit \<Longrightarrow> page_ends_clean limit xs \<Longrightarrow> page_ends_clean limit (drop limit xs)"
proof (cases "length xs \<le> limit")
  case True
  then show ?thesis by (subst page_ends_clean.simps) simp
next
  case False
  assume "0 < limit" and "page_ends_clean limit xs"
  with False show ?thesis by (subst (asm) page_ends_clean.simps) simp
qed

lemma sparql_holds_FilterGt: "sparql_holds (FilterGt t) = (\<lambda>u. t < u)"
  by (rule ext) simp

lemma fq_holds_RangeFrom: "fq_holds (RangeFrom t) = (\<lambda>u. t < u)"
  by (rule ext) simp

lemma next_matching:
  assumes up: "\<And>t u. P t \<Longrightarrow> t < u \<Longrightarrow> P u"
    and ne: "take limit (matching P pop) \<noteq> []"
  shows "matching (\<lambda>u. snd (last (take limit (matching P pop))) < u) pop
       = filter (\<lambda>r. snd (last (take limit (matching P pop))) < snd r)
           (drop limit (matching P pop))"
proof -
  have "last (take limit (matching P pop)) \<in> set (matching P pop)"
    using ne by (meson in_set_takeD last_in_set)
  then have "P (snd (last (take limit (matching P pop))))"
    by (simp add: set_matching)
  then have "matching (\<lambda>u. snd (last (take limit (matching P pop))) < u) pop
      = filter (\<lambda>r. snd (last (take limit (matching P pop))) < snd r) (matching P pop)"
    by (intro matching_after) (rule up)
  with after_page [OF sorted_matching ne] show ?thesis by simp
qed

lemma matching_Nil_take: "0 < limit \<Longrightarrow> take limit xs = [] \<Longrightarrow> xs = []"
  by (cases xs) auto

lemma ri_pages_complete:
  "(\<And>i. status_code srv i = codes_ok) \<Longrightarrow> 0 < limit
   \<Longrightarrow> page_ends_clean limit (matching (sparql_holds flt) (population srv))
   \<Longrightarrow> ri_pages srv n flt limit = matching (sparql_holds flt) (population srv)"
proof (induction srv n flt limit rule: ri_pages.induct)
  case (1 srv n flt limit)
  let ?S = "matching (sparql_holds flt) (population srv)"
  let ?t = "snd (last (take limit ?S))"
  show ?case
  proof (cases "take limit ?S = []")
    case True
    with "1.prems"(2) have "?S = []" by (rule matching_Nil_take)
    with "1.prems"(1) show ?thesis by (subst ri_pages_unfold) simp
  next
    case False
    have "matching (sparql_holds (FilterGt ?t)) (population srv)
        = filter (\<lambda>r. ?t < snd r) (drop limit ?S)"
      unfolding sparql_holds_FilterGt
      by (rule next_matching [OF _ False]) (rule sparql_holds_after)
    also have "\<dots> = drop limit ?S"
      by (rule after_clean_page [OF sorted_matching "1.prems"(2,3)])
    finally have nxt: "matching (sparql_holds (FilterGt ?t)) (population srv) = drop limit ?S" .
    have "ri_pages srv (Suc n) (FilterGt ?t) limit
        = matching (sparql_holds (FilterGt ?t)) (population srv)"
    proof (rule "1.IH" [OF refl, unfolded results_ri_post ri_status_ri_post])
      show "status_code srv n = codes_ok" by (rule "1.prems"(1))
      show "length (take limit ?S) \<noteq> 0" using False by simp
      show "status_code srv i = codes_ok" for i by (rule "1.prems"(1))
      show "0 < limit" by (rule "1.prems"(2))
      show "page_ends_clean limit (matching (sparql_holds (FilterGt ?t)) (population srv))"
        unfolding nxt by (rule page_ends_clean_drop [OF "1.prems"(2,3)])
    qed
    with nxt have "ri_pages srv (Suc n) (FilterGt ?t) limit = drop limit ?S" by simp
    with False "1.prems"(1) show ?thesis by (subst ri_pages_unfold) simp
  qed
qed

lemma solr_pages_complete:
  "(\<And>i. status_code srv i = codes_ok) \<Longrightarrow> 0 < rows
   \<Longrightarrow> page_ends_clean rows (matching (fq_holds fq) (population srv))
   \<Longrightarrow> solr_pages srv n fq rows = (matching (fq_holds fq) (population srv), StopIteration)"
proof (induction srv n fq rows rule: solr_pages.induct)
  case (1 srv n fq rows)
  let ?S = "matching (fq_holds fq) (population srv)"
  let ?t = "snd (last (take rows ?S))"
  show ?case
  proof (cases "?S = []")
    case True
    with "1.prems"(1) show ?thesis by (subst solr_pages_unfold) simp
  next
    case False
    with "1.prems"(2) have page: "take rows ?S \<noteq> []"
      using matching_Nil_take by blast
    have "matching (fq_holds (RangeFrom ?t)) (population srv)
        = filter (\<lambda>r. ?t < snd r) (drop rows ?S)"
      unfolding fq_holds_RangeFrom
      by (rule next_matching [OF _ page]) (rule fq_holds_after)
    also have "\<dots> = drop rows ?S"
      by (rule after_clean_page [OF sorted_matching "1.prems"(2,3)])
    finally have nxt: "matching (fq_holds (RangeFrom ?t)) (population srv) = drop rows ?S" .
    have "solr_pages srv (Suc n) (RangeFrom ?t) rows
        = (matching (fq_holds (RangeFrom ?t)) (population srv), StopIteration)"
    proof (rule "1.IH" [OF refl, unfolded docs_solr_post numFound_solr_post
          solr_status_solr_post])
      show "status_code srv n = codes_ok" by (rule "1.prems"(1))
      show "length ?S \<noteq> 0" using False by simp
      show "take rows ?S \<noteq> []" by (rule page)
      show "status_code srv i = codes_ok" for i by (rule "1.prems"(1))
      show "0 < rows" by (rule "1.prems"(2))
      show "page_ends_clean rows (matching (fq_holds (RangeFrom ?t)) (population srv))"
        unfolding nxt by (rule page_ends_clean_drop [OF "1.prems"(2,3)])
    qed
    with nxt have "solr_pages srv (Suc n) (RangeFrom ?t) rows = (drop rows ?S, StopIteration)"
      by simp
    with False page "1.prems"(1) show ?thesis by (subst solr_pages_unfold) simp
  qed
qed

lemma short_page_is_last:
  assumes up: "\<And>t u. P t \<Longrightarrow> t < u \<Longrightarrow> P u"
    and ne: "take limit (matching P pop) \<noteq> []"
    and short: "length (take limit (matching P pop)) < limit"
  shows "matching (\<lambda>u. snd (last (take limit (matching P pop))) < u) pop = []"
proof -
  from short have "drop limit (matching P pop) = []" by simp
  with next_matching [of P limit pop, OF up ne] show ?thesis by simp
qed

text \<open>
  A population in which no two objects carry the same timestamp has no page end between
  equal timestamps, whatever the page size.
\<close>

lemma distinct_times_clean:
  "sorted (map snd xs) \<Longrightarrow> distinct (map snd xs) \<Longrightarrow> page_ends_clean limit xs"
proof (induction limit xs rule: page_ends_clean.induct)
  case (1 limit xs)
  show ?case
  proof (cases "limit = 0 \<or> length xs \<le> limit")
    case True
    then show ?thesis by (subst page_ends_clean.simps) simp
  next
    case False
    then have pos: "0 < limit" and long: "limit < length xs" by simp_all
    from "1.prems"(1) pos long have "map snd xs ! (limit - 1) \<le> map snd xs ! limit"
      by (intro sorted_nth_mono) simp_all
    moreover from "1.prems"(2) pos long
    have "(map snd xs ! (limit - 1) = map snd xs ! limit) = (limit - 1 = limit)"
      by (intro nth_eq_iff_index_eq) simp_all
    with pos have "map snd xs ! (limit - 1) \<noteq> map snd xs ! limit" by simp
    ultimately have step: "snd (xs ! (limit - 1)) < snd (xs ! limit)"
      using pos long by simp
    from "1.prems" have "sorted (map snd (drop limit xs))" "distinct (map snd (drop limit xs))"
      by (simp_all add: drop_map [symmetric] sorted_wrt_drop)
    with "1.IH" False have "page_ends_clean limit (drop limit xs)" by simp
    with step False show ?thesis by (subst page_ends_clean.simps) simp
  qed
qed

lemma healthy_simps [simp]:
  "population (healthy srv) = population srv" "status_code (healthy srv) i = codes_ok"
  by (simp_all add: healthy_def)

lemma ri_pages_truncated:
  "population srv' = population srv \<Longrightarrow> (\<And>i. status_code srv' i = codes_ok)
   \<Longrightarrow> (\<And>i. n \<le> i \<Longrightarrow> i < n + k \<Longrightarrow> status_code srv i = codes_ok)
   \<Longrightarrow> status_code srv (n + k) \<noteq> codes_ok
   \<Longrightarrow> ri_pages srv n flt limit = take (k * limit) (ri_pages srv' n flt limit)"
proof (induction srv' n flt limit arbitrary: k rule: ri_pages.induct)
  case (1 srv' n flt limit)
  let ?S = "matching (sparql_holds flt) (population srv)"
  let ?page = "take limit ?S"
  let ?t = "snd (last ?page)"
  note pop = "1.prems"(1) and ok' = "1.prems"(2)
  show ?case
  proof (cases k)
    case 0
    with "1.prems"(4) have "ri_pages srv n flt limit = []"
      by (subst ri_pages_unfold) simp
    with 0 show ?thesis by simp
  next
    case (Suc k')
    with "1.prems"(3) [of n] have ok: "status_code srv n = codes_ok" by simp
    show ?thesis
    proof (cases "?page = []")
      case True
      then have "ri_pages srv n flt limit = []" "ri_pages srv' n flt limit = []"
        using ok ok' pop by (subst ri_pages_unfold, simp)+
      then show ?thesis by simp
    next
      case False
      have IH: "ri_pages srv (Suc n) (FilterGt ?t) limit
          = take (k' * limit) (ri_pages srv' (Suc n) (FilterGt ?t) limit)"
      proof (rule "1.IH" [OF refl, unfolded results_ri_post ri_status_ri_post pop])
        show "status_code srv' n = codes_ok" by (rule ok')
        show "length ?page \<noteq> 0" using False by simp
        show "population srv = population srv" ..
        show "status_code srv' i = codes_ok" for i by (rule ok')
        show "status_code srv i = codes_ok" if "Suc n \<le> i" "i < Suc n + k'" for i
          using that Suc by (intro "1.prems"(3)) simp_all
        show "status_code srv (Suc n + k') \<noteq> codes_ok"
          using "1.prems"(4) Suc by simp
      qed
      have unf: "ri_pages srv n flt limit = ?page @ ri_pages srv (Suc n) (FilterGt ?t) limit"
        using ok False by (subst ri_pages_unfold) simp
      have unf': "ri_pages srv' n flt limit = ?page @ ri_pages srv' (Suc n) (FilterGt ?t) limit"
        using ok' False pop by (subst ri_pages_unfold) simp
      show ?thesis
      proof (cases "length ?page = limit")
        case True
        then show ?thesis unfolding unf unf' IH Suc by simp
      next
        case False
        then have short: "length ?page < limit" by simp
        have "matching (sparql_holds (FilterGt ?t)) (population srv) = []"
          unfolding sparql_holds_FilterGt
          by (rule short_page_is_last [OF _ \<open>?page \<noteq> []\<close> short]) (rule sparql_holds_after)
        then have "ri_pages srv' (Suc n) (FilterGt ?t) limit = []"
          using ok' pop by (subst ri_pages_unfold) simp
        with short show ?thesis unfolding unf unf' IH Suc by simp
      qed
    qed
  qed
qed

lemma solr_pages_truncated:
  "population srv' = population srv \<Longrightarrow> (\<And>i. status_code srv' i = codes_ok)
   \<Longrightarrow> (\<And>i. n \<le> i \<Longrightarrow> i < n + k \<Longrightarrow> status_code srv i = codes_ok)
   \<Longrightarrow> status_code srv (n + k) \<noteq> codes_ok \<Longrightarrow> 0 < rows
   \<Longrightarrow> solr_pages srv n fq rows
       = (take (k * rows) (fst (solr_pages srv' n fq rows)), StopIteration)"
proof (induction srv' n fq rows arbitrary: k rule: solr_pages.induct)
  case (1 srv' n fq rows)
  let ?S = "matching (fq_holds fq) (population srv)"
  let ?page = "take rows ?S"
  let ?t = "snd (last ?page)"
  note pop = "1.prems"(1) and ok' = "1.prems"(2) and pos = "1.prems"(5)
  show ?case
  proof (cases k)
    case 0
    with "1.prems"(4) have "solr_pages srv n fq rows = ([], StopIteration)"
      by (subst solr_pages_unfold) simp
    with 0 show ?thesis by simp
  next
    case (Suc k')
    with "1.prems"(3) [of n] have ok: "status_code srv n = codes_ok" by simp
    show ?thesis
    proof (cases "?S = []")
      case True
      then have "solr_pages srv n fq rows = ([], StopIteration)"
          "solr_pages srv' n fq rows = ([], StopIteration)"
        using ok ok' pop by (subst solr_pages_unfold, simp)+
      then show ?thesis by simp
    next
      case False
      with pos have page: "?page \<noteq> []" using matching_Nil_take by blast
      have IH: "solr_pages srv (Suc n) (RangeFrom ?t) rows
          = (take (k' * rows) (fst (solr_pages srv' (Suc n) (RangeFrom ?t) rows)), StopIteration)"
      proof (rule "1.IH" [OF refl, unfolded docs_solr_post numFound_solr_post
            solr_status_solr_post pop])
        show "status_code srv' n = codes_ok" by (rule ok')
        show "length ?S \<noteq> 0" using False by simp
        show "?page \<noteq> []" by (rule page)
        show "population srv = population srv" ..
        show "status_code srv' i = codes_ok" for i by (rule ok')
        show "status_code srv i = codes_ok" if "Suc n \<le> i" "i < Suc n + k'" for i
          using that Suc by (intro "1.prems"(3)) simp_all
        show "status_code srv (Suc n + k') \<noteq> codes_ok"
          using "1.prems"(4) Suc by simp
        show "0 < rows" by (rule pos)
      qed
      have unf: "solr_pages srv n fq rows
          = (?page @ fst (solr_pages srv (Suc n) (RangeFrom ?t) rows),
             snd (solr_pages srv (Suc n) (RangeFrom ?t) rows))"
        using ok False page by (subst solr_pages_unfold) simp
      have unf': "fst (solr_pages srv' n fq rows)
          = ?page @ fst (solr_pages srv' (Suc n) (RangeFrom ?t) rows)"
        using ok' False page pop by (subst solr_pages_unfold) simp
      show ?thesis
      proof (cases "length ?page = rows")
        case True
        then show ?thesis unfolding unf unf' IH Suc by simp
      next
        case False
        then have short: "length ?page < rows" by simp
        have "matching (fq_holds (RangeFrom ?t)) (population srv) = []"
          unfolding fq_holds_RangeFrom
          by (rule short_page_is_last [OF _ page short]) (rule fq_holds_after)
        then have "solr_pages srv' (Suc n) (RangeFrom ?t) rows = ([], StopIteration)"
          using ok' pop by (subst solr_pages_unfold) simp
        with short show ?thesis unfolding unf unf' IH Suc by simp
      qed
    qed
  qed
qed

text \<open>
  The first request of the resource index generator selects the windowed population; the
  first request of the Solr generator does when no object carries the boundary itself as
  its timestamp.
\<close>

lemma ri_first_request_window:
  "matching (sparql_holds (ri_start_filter start)) pop = windowed_population start pop"
proof -
  have "sparql_holds (ri_start_filter start) = in_window start"
    by (rule ext) (simp add: ri_start_filter_def in_window_def split: option.splits)
  then show ?thesis by (simp add: matching_def windowed_population_def)
qed

lemma solr_first_request_window:
  assumes "\<forall>r \<in> set pop. start \<noteq> Some (snd r)"
  shows "matching (fq_holds (solr_start_fq start)) pop = windowed_population start pop"
proof -
  have "filter (\<lambda>r. fq_holds (solr_start_fq start) (snd r)) pop
      = filter (\<lambda>r. in_window start (snd r)) pop"
  proof (rule filter_cong [OF refl])
    fix r assume "r \<in> set pop"
    with assms have "start \<noteq> Some (snd r)" by blast
    then show "fq_holds (solr_start_fq start) (snd r) = in_window start (snd r)"
      by (cases start) (auto simp: solr_start_fq_def in_window_def)
  qed
  then show ?thesis by (simp add: matching_def windowed_population_def)
qed

lemma windowed_population_props:
  "set (windowed_population start pop) = {r \<in> set pop. in_window start (snd r)}"
  "sorted (map by_time_pid (windowed_population start pop))"
  "distinct pop \<Longrightarrow> distinct (windowed_population start pop)"
  by (auto simp: windowed_population_def)

section \<open>The claims of the specification\<close>

subsection \<open>C1: the flagged identifiers are the symmetric difference\<close>

text \<open>
  Claim C1 says that on sorted streams without duplicates every identifier present in
  exactly one source, or in both with differing timestamps, is flagged exactly once. It
  does not hold of the script. Here \<open>b\<close> is in the resource index only. The pair
  \<open>(a, 1)\<close> matches; then \<^verbatim>\<open>ri.next()\<close> puts \<open>(b, 2)\<close> into \<^verbatim>\<open>ri_result\<close> and
  \<^verbatim>\<open>solr.next()\<close> raises \<^verbatim>\<open>StopIteration\<close>. The leftover loops iterate the two
  iterators, and both are empty: the tuple held in \<^verbatim>\<open>ri_result\<close> is never looked at
  again. So \<open>b\<close> is never sent to the trigger, and the process ends with \<^verbatim>\<open>exit(0)\<close>.
\<close>

theorem unmatched_record_is_not_flagged:
  "main \<lparr>population = [(''a'', 1), (''b'', 2)], status_code = (\<lambda>n. 200)\<rparr>
     \<lparr>population = [(''a'', 1)], status_code = (\<lambda>n. 200)\<rparr> (\<lambda>n p. 200) None 10
   = Exit 0 \<lparr>updated = False, posted = [], logged = []\<rparr>"
  by code_simp

subsection \<open>C2: the leftover loops\<close>

text \<open>
  Claim C2 says that once one stream is exhausted every remaining record of the other is
  flagged exactly once, in order. It does not hold of the script. Here Solr is exhausted
  after \<open>(a, 1)\<close> while the resource index still has \<open>(b, 2)\<close> and \<open>(c, 3)\<close>. The tuple
  \<open>(b, 2)\<close> is lost in \<^verbatim>\<open>ri_result\<close> as in C1, and the leftover loop, entered for
  \<open>(c, 3)\<close>, raises \<^verbatim>\<open>NameError\<close> at \<^verbatim>\<open>logger.debug\<close> before it reaches
  \<^verbatim>\<open>gsearch.update_pid\<close>. Nothing is sent to the trigger and the process ends in a
  traceback.
\<close>

theorem leftover_loop_raises:
  "main \<lparr>population = [(''a'', 1), (''b'', 2), (''c'', 3)], status_code = (\<lambda>n. 200)\<rparr>
     \<lparr>population = [(''a'', 1)], status_code = (\<lambda>n. 200)\<rparr> (\<lambda>n p. 200) None 10
   = Traceback NameError \<lparr>updated = False, posted = [], logged = []\<rparr>"
  by code_simp

subsection \<open>C3: a page fetch that fails\<close>

text \<open>
  Claim C3 says that a non-success status of a page fetch surfaces as a fatal error and
  that the process exits non-zero. It does not hold of the script: both generators loop
  \<^verbatim>\<open>while r.status_code == requests.codes.ok\<close>, so a response that is not OK ends the
  loop silently. Here both services hold the one object \<open>(x, 1)\<close> and the first Solr
  request is answered with status 500: no exception is raised, nothing is flagged, and the
  process ends with \<^verbatim>\<open>exit(0)\<close>.
\<close>

theorem failed_fetch_exits_zero:
  "main \<lparr>population = [(''x'', 1)], status_code = (\<lambda>n. 200)\<rparr>
     \<lparr>population = [(''x'', 1)], status_code = (\<lambda>n. 500)\<rparr> (\<lambda>n p. 200) None 10
   = Exit 0 \<lparr>updated = False, posted = [], logged = []\<rparr>"
  by code_simp

text \<open>
  Claim C3 as amended. When request number \<open>k\<close> of a source is the first that is not
  answered OK, the generator raises nothing: it yields the pages of the \<open>k\<close> requests
  before it, which are the first \<open>k * limit\<close> entries of what it would yield from the
  service in good health, and then stops like an exhausted generator (for Solr with a
  positive number of rows per page). The run goes on with this shortened stream, whichever
  side it is on, and its exit status follows the general rule: 1 if the trigger was
  invoked or the run ended in a traceback, and 0 otherwise. What the loop has sent to the
  trigger, and what it has logged as updated, stays as it is while the loop goes on.
\<close>

theorem failed_fetch_ends_the_stream:
  assumes "status_code srv k \<noteq> codes_ok" and "\<forall>i<k. status_code srv i = codes_ok"
  shows "ri_generator srv start limit
           = (take (k * limit) (fst (ri_generator (healthy srv) start limit)), StopIteration)
       \<and> (0 < limit \<longrightarrow> solr_generator srv start limit
           = (take (k * limit) (fst (solr_generator (healthy srv) start limit)), StopIteration))
       \<and> exit_status (main srv other trig start limit)
           = (if flagged (main srv other trig start limit) \<noteq> []
                \<or> fatal (main srv other trig start limit) then 1 else 0)
       \<and> exit_status (main other srv trig start limit)
           = (if flagged (main other srv trig start limit) \<noteq> []
                \<or> fatal (main other srv trig start limit) then 1 else 0)
       \<and> prefix (posted (gs s)) (posted (gs (state_of (merge_loop trig s))))
       \<and> prefix (logged (gs s)) (logged (gs (state_of (merge_loop trig s))))"
proof -
  have "ri_pages srv 0 flt limit = take (k * limit) (ri_pages (healthy srv) 0 flt limit)" for flt
    using assms by (intro ri_pages_truncated) simp_all
  moreover have "solr_pages srv 0 fq limit
      = (take (k * limit) (fst (solr_pages (healthy srv) 0 fq limit)), StopIteration)"
    if "0 < limit" for fq
    using assms that by (intro solr_pages_truncated) simp_all
  ultimately show ?thesis
    using sent_merge_loop [of s trig]
    by (simp add: ri_generator_def solr_generator_def main_def exit_status_reconcile)
qed

text \<open>
  Three objects, two rows per page, the second request answered with status 500: each
  generator yields the first page and stops.
\<close>

theorem failed_fetch_ends_the_stream_witness:
  "ri_generator \<lparr>population = [(''a'', 1), (''b'', 2), (''c'', 3)],
        status_code = (\<lambda>n. if n = 1 then 500 else 200)\<rparr> None 2
     = ([(''a'', 1), (''b'', 2)], StopIteration)
   \<and> solr_generator \<lparr>population = [(''a'', 1), (''b'', 2), (''c'', 3)],
        status_code = (\<lambda>n. if n = 1 then 500 else 200)\<rparr> None 2
     = ([(''a'', 1), (''b'', 2)], StopIteration)"
proof -
  let ?srv = "\<lparr>population = [(''a'', 1), (''b'', 2), (''c'', 3)],
        status_code = (\<lambda>n. if n = 1 then 500 else 200)\<rparr>"
  have bad: "status_code ?srv 1 \<noteq> codes_ok" by (simp add: codes_ok_def)
  have good: "\<forall>i<1. status_code ?srv i = codes_ok" by (simp add: codes_ok_def)
  have r: "fst (ri_generator (healthy ?srv) None 2) = [(''a'', 1), (''b'', 2), (''c'', 3)]"
    by code_simp
  have s: "fst (solr_generator (healthy ?srv) None 2) = [(''a'', 1), (''b'', 2), (''c'', 3)]"
    by code_simp
  have pos: "0 < (2::nat)" by simp
  from failed_fetch_ends_the_stream [OF bad good, of None 2] pos
  have "ri_generator ?srv None 2
        = (take (1 * 2) (fst (ri_generator (healthy ?srv) None 2)), StopIteration)
      \<and> solr_generator ?srv None 2
        = (take (1 * 2) (fst (solr_generator (healthy ?srv) None 2)), StopIteration)"
    by blast
  then show ?thesis unfolding r s by simp
qed

subsection \<open>C4: scenario 2\<close>

text \<open>
  Claim C4 (scenario 2 of the specification) says that for \<open>A = [(x, t1)]\<close> and
  \<open>B = []\<close> the identifier \<open>x\<close> is flagged once and the process exits with code 1. It
  does not hold of the script: \<^verbatim>\<open>ri.next()\<close> hands \<open>(x, t1)\<close> to \<^verbatim>\<open>ri_result\<close>,
  \<^verbatim>\<open>solr.next()\<close> raises \<^verbatim>\<open>StopIteration\<close>, and the leftover loop over \<^verbatim>\<open>ri\<close> finds the
  iterator empty. Nothing is sent to the trigger and the process ends with \<^verbatim>\<open>exit(0)\<close>,
  on the two iterators as well as in the run with a resource index that holds \<open>(x, t1)\<close>
  and an empty Solr.
\<close>

theorem lone_catalog_record_is_dropped:
  "reconcile trig ([(x, t1)], StopIteration) ([], StopIteration) = Exit 0 gsearch_init
   \<and> main \<lparr>population = [(x, t1)], status_code = (\<lambda>n. 200)\<rparr>
        \<lparr>population = [], status_code = (\<lambda>n. 200)\<rparr> trig None 10 = Exit 0 gsearch_init"
proof -
  have a: "reconcile trig ([(x, t1)], StopIteration) ([], StopIteration) = Exit 0 gsearch_init"
    by (simp add: reconcile_def try_block_def gsearch_init_def)
  have "ri_generator \<lparr>population = [(x, t1)], status_code = (\<lambda>n. 200)\<rparr> None 10
      = ([(x, t1)], StopIteration)"
    by (simp add: ri_generator_def ri_start_filter_def ri_pages.simps ri_post_def codes_ok_def)
  moreover have "solr_generator \<lparr>population = [], status_code = (\<lambda>n. 200)\<rparr> None 10
      = ([], StopIteration)"
    by (simp add: solr_generator_def solr_start_fq_def solr_pages.simps solr_post_def codes_ok_def)
  ultimately show ?thesis using a by (simp add: main_def)
qed

subsection \<open>C5: every record of the window is yielded\<close>

text \<open>
  Claim C5 says that for every page size each source yields every record of the windowed
  population exactly once, also when records that share a timestamp span a page end,
  because the source detects the truncation and asks again with an inclusive filter. It
  does not hold of the script, which has no such detection: after a page, the resource
  index generator asks for \<^verbatim>\<open>?timestamp > last\<close> and the Solr generator for
  \<^verbatim>\<open>{last TO *}\<close>. Here \<open>(a, 1)\<close> and \<open>(b, 1)\<close> share their timestamp and the page size
  is 1: \<open>(b, 1)\<close> is yielded by neither generator. With the page size 0 the Solr
  generator yields nothing and raises \<^verbatim>\<open>IndexError\<close> at \<^verbatim>\<open>docs[-1]\<close>. And with the
  boundary 1 the Solr generator does not yield \<open>(a, 1)\<close>, whose timestamp is the
  boundary.
\<close>

theorem boundary_ties_are_dropped:
  "ri_generator \<lparr>population = [(''a'', 1), (''b'', 1)], status_code = (\<lambda>n. 200)\<rparr> None 1
     = ([(''a'', 1)], StopIteration)
   \<and> solr_generator \<lparr>population = [(''a'', 1), (''b'', 1)], status_code = (\<lambda>n. 200)\<rparr> None 1
     = ([(''a'', 1)], StopIteration)
   \<and> solr_generator \<lparr>population = [(''a'', 1), (''b'', 1)], status_code = (\<lambda>n. 200)\<rparr> None 0
     = ([], Raises IndexError)
   \<and> solr_generator \<lparr>population = [(''a'', 1), (''b'', 2)], status_code = (\<lambda>n. 200)\<rparr> (Some 1) 1
     = ([(''b'', 2)], StopIteration)"
  by code_simp

text \<open>
  Claim C5 as amended. For every positive page size and every window boundary, when every
  response is OK and no page ends between two records of the windowed population that
  carry the same timestamp, each generator yields every record of the windowed population
  (the records of its service at or after the boundary), in ascending order of timestamp
  and identifier, and then stops; for Solr, provided that no record carries the boundary
  itself as its timestamp. So every record of the window is yielded and no other, and
  each exactly once when the service holds it once.
\<close>

theorem sources_yield_window:
  assumes "\<forall>i. status_code ri_srv i = codes_ok" and "\<forall>i. status_code solr_srv i = codes_ok"
    and "0 < limit"
    and "page_ends_clean limit (windowed_population start (population ri_srv))"
    and "page_ends_clean limit (windowed_population start (population solr_srv))"
    and "\<forall>r \<in> set (population solr_srv). start \<noteq> Some (snd r)"
  shows "ri_generator ri_srv start limit
           = (sort_key by_time_pid
                (filter (\<lambda>r. in_window start (snd r)) (population ri_srv)), StopIteration)
       \<and> solr_generator solr_srv start limit
           = (sort_key by_time_pid
                (filter (\<lambda>r. in_window start (snd r)) (population solr_srv)), StopIteration)
       \<and> set (fst (ri_generator ri_srv start limit))
           = {r \<in> set (population ri_srv). in_window start (snd r)}
       \<and> set (fst (solr_generator solr_srv start limit))
           = {r \<in> set (population solr_srv). in_window start (snd r)}
       \<and> (distinct (population ri_srv) \<longrightarrow> distinct (fst (ri_generator ri_srv start limit)))
       \<and> (distinct (population solr_srv)
            \<longrightarrow> distinct (fst (solr_generator solr_srv start limit)))"
proof -
  have ri: "ri_generator ri_srv start limit
      = (windowed_population start (population ri_srv), StopIteration)"
    using assms(1,3,4)
    by (simp add: ri_generator_def ri_pages_complete ri_first_request_window)
  have solr: "solr_generator solr_srv start limit
      = (windowed_population start (population solr_srv), StopIteration)"
    using assms(2,3,5,6)
    by (simp add: solr_generator_def solr_pages_complete solr_first_request_window)
  show ?thesis
    unfolding ri solr fst_conv
    by (simp add: windowed_population_props) (simp add: windowed_population_def)
qed

text \<open>
  The boundary is 1 and a page has two rows. The resource index holds two objects with the
  timestamp 1, which is the boundary, in one page, one object after it and one before it;
  Solr holds three objects after the boundary and one before it.
\<close>

theorem sources_yield_window_witness:
  "ri_generator \<lparr>population = [(''b'', 1), (''d'', 0), (''a'', 1), (''c'', 2)],
        status_code = (\<lambda>n. 200)\<rparr> (Some 1) 2
     = ([(''a'', 1), (''b'', 1), (''c'', 2)], StopIteration)
   \<and> solr_generator \<lparr>population = [(''b'', 2), (''d'', 0), (''a'', 2), (''c'', 3)],
        status_code = (\<lambda>n. 200)\<rparr> (Some 1) 2
     = ([(''a'', 2), (''b'', 2), (''c'', 3)], StopIteration)"
proof -
  let ?ri = "\<lparr>population = [(''b'', 1), (''d'', 0), (''a'', 1), (''c'', 2)],
        status_code = (\<lambda>n. 200)\<rparr>"
  let ?solr = "\<lparr>population = [(''b'', 2), (''d'', 0), (''a'', 2), (''c'', 3)],
        status_code = (\<lambda>n. 200)\<rparr>"
  have ok1: "\<forall>i. status_code ?ri i = codes_ok" by (simp add: codes_ok_def)
  have ok2: "\<forall>i. status_code ?solr i = codes_ok" by (simp add: codes_ok_def)
  have pos: "0 < (2::nat)" by simp
  have c1: "page_ends_clean 2 (windowed_population (Some 1) (population ?ri))" by code_simp
  have c2: "page_ends_clean 2 (windowed_population (Some 1) (population ?solr))" by code_simp
  have nb: "\<forall>r \<in> set (population ?solr). Some 1 \<noteq> Some (snd r)" by simp
  have w1: "sort_key by_time_pid (filter (\<lambda>r. in_window (Some 1) (snd r)) (population ?ri))
      = [(''a'', 1), (''b'', 1), (''c'', 2)]" by code_simp
  have w2: "sort_key by_time_pid (filter (\<lambda>r. in_window (Some 1) (snd r)) (population ?solr))
      = [(''a'', 2), (''b'', 2), (''c'', 3)]" by code_simp
  from sources_yield_window [OF ok1 ok2 pos c1 c2 nb]
  have "ri_generator ?ri (Some 1) 2
      = (sort_key by_time_pid (filter (\<lambda>r. in_window (Some 1) (snd r)) (population ?ri)),
         StopIteration)
    \<and> solr_generator ?solr (Some 1) 2
      = (sort_key by_time_pid (filter (\<lambda>r. in_window (Some 1) (snd r)) (population ?solr)),
         StopIteration)"
    by blast
  then show ?thesis unfolding w1 w2 .
qed

subsection \<open>C6: the exit status\<close>

text \<open>
  Claim C6 says that the exit status is 0 if the update trigger was never invoked and 1 if
  it was invoked at least once or if a fatal error occurred during the run. For the
  specification a page fetch that returns a non-success status is a fatal error. In that
  sense the claim does not hold of the script. Here both services hold \<open>(a, 1)\<close> and
  \<open>(b, 2)\<close>, a page has one row, and the second Solr request, sent in the middle of the
  pass, is answered with status 500: the Solr generator stops after \<open>(a, 1)\<close>, and the
  process ends with \<^verbatim>\<open>exit(0)\<close>.
\<close>

theorem failed_fetch_mid_pass_exits_zero:
  "solr_generator \<lparr>population = [(''a'', 1), (''b'', 2)],
        status_code = (\<lambda>n. if n = 1 then 500 else 200)\<rparr> None 1
     = ([(''a'', 1)], StopIteration)
   \<and> main \<lparr>population = [(''a'', 1), (''b'', 2)], status_code = (\<lambda>n. 200)\<rparr>
        \<lparr>population = [(''a'', 1), (''b'', 2)],
         status_code = (\<lambda>n. if n = 1 then 500 else 200)\<rparr> (\<lambda>n p. 200) None 1
     = Exit 0 \<lparr>updated = False, posted = [], logged = []\<rparr>"
  by code_simp

text \<open>
  Claim C6 as amended. The process ends with status 1 if the update trigger was invoked at
  least once or the run ended in an uncaught exception, and with status 0 otherwise, that
  is when the trigger was never invoked and the run reached \<^verbatim>\<open>exit\<close>. A page fetch that
  is not answered OK is no error for the script and does not by itself change the status.
\<close>

theorem exit_status_rule:
  "exit_status (main ri_srv solr_srv trig start limit) =
     (if flagged (main ri_srv solr_srv trig start limit) \<noteq> []
         \<or> fatal (main ri_srv solr_srv trig start limit) then 1 else 0)"
  unfolding main_def by (rule exit_status_reconcile)

text \<open>
  A run with drift ends with status 1, a run without ends with status 0, and a run that
  ends in a traceback before anything was flagged ends with status 1.
\<close>

theorem exit_status_rule_witness:
  "exit_status (main \<lparr>population = [(''a'', 1), (''b'', 2)], status_code = (\<lambda>n. 200)\<rparr>
       \<lparr>population = [(''b'', 2)], status_code = (\<lambda>n. 200)\<rparr> (\<lambda>n p. 200) None 10) = 1
   \<and> exit_status (main \<lparr>population = [(''b'', 2)], status_code = (\<lambda>n. 200)\<rparr>
       \<lparr>population = [(''b'', 2)], status_code = (\<lambda>n. 200)\<rparr> (\<lambda>n p. 200) None 10) = 0
   \<and> exit_status (main \<lparr>population = [(''a'', 1), (''b'', 2), (''c'', 3)], status_code = (\<lambda>n. 200)\<rparr>
       \<lparr>population = [(''a'', 1)], status_code = (\<lambda>n. 200)\<rparr> (\<lambda>n p. 200) None 10) = 1"
proof -
  let ?ab = "\<lparr>population = [(''a'', 1), (''b'', 2)], status_code = (\<lambda>n. 200)\<rparr>"
  let ?b = "\<lparr>population = [(''b'', 2)], status_code = (\<lambda>n. 200)\<rparr>"
  let ?abc = "\<lparr>population = [(''a'', 1), (''b'', 2), (''c'', 3)], status_code = (\<lambda>n. 200)\<rparr>"
  let ?a = "\<lparr>population = [(''a'', 1)], status_code = (\<lambda>n. 200)\<rparr>"
  have drift: "flagged (main ?ab ?b (\<lambda>n p. 200) None 10) = [''a'']"
    by code_simp
  have none: "flagged (main ?b ?b (\<lambda>n p. 200) None 10) = []"
    by code_simp
  have clean: "\<not> fatal (main ?b ?b (\<lambda>n p. 200) None 10)"
    by code_simp
  have crash: "fatal (main ?abc ?a (\<lambda>n p. 200) None 10)"
    by code_simp
  from exit_status_rule [of ?ab ?b "\<lambda>n p. 200" None 10] drift
  have one: "exit_status (main ?ab ?b (\<lambda>n p. 200) None 10) = 1" by simp
  from exit_status_rule [of ?b ?b "\<lambda>n p. 200" None 10] none clean
  have two: "exit_status (main ?b ?b (\<lambda>n p. 200) None 10) = 0" by simp
  from exit_status_rule [of ?abc ?a "\<lambda>n p. 200" None 10] crash
  have three: "exit_status (main ?abc ?a (\<lambda>n p. 200) None 10) = 1" by simp
  from one two three show ?thesis by blast
qed

subsection \<open>C7: the window boundary in the two first requests\<close>

text \<open>
  Claim C7 says that a record whose timestamp equals the window boundary is in the window
  of both sources or of neither. It does not hold of the script: both constructors get
  the same \<^verbatim>\<open>start\<close>, but the resource index query filters with
  \<^verbatim>\<open>?timestamp >= start\<close> and the Solr query with \<^verbatim>\<open>{start TO *}\<close>, whose curly bracket
  excludes the bound. Here both services hold the same two objects and the boundary is
  the timestamp of \<open>x\<close>: the resource index generator yields \<open>x\<close>, the Solr generator
  does not, and the run flags \<open>x\<close> although the two indexes agree on it.
\<close>

theorem boundary_record_in_one_window_only:
  "sparql_holds (ri_start_filter (Some 5)) 5
   \<and> \<not> fq_holds (solr_start_fq (Some 5)) 5
   \<and> ri_generator \<lparr>population = [(''x'', 5), (''y'', 6)], status_code = (\<lambda>n. 200)\<rparr> (Some 5) 10
     = ([(''x'', 5), (''y'', 6)], StopIteration)
   \<and> solr_generator \<lparr>population = [(''x'', 5), (''y'', 6)], status_code = (\<lambda>n. 200)\<rparr> (Some 5) 10
     = ([(''y'', 6)], StopIteration)
   \<and> main \<lparr>population = [(''x'', 5), (''y'', 6)], status_code = (\<lambda>n. 200)\<rparr>
        \<lparr>population = [(''x'', 5), (''y'', 6)], status_code = (\<lambda>n. 200)\<rparr> (\<lambda>n p. 200) (Some 5) 10
     = Exit 1 \<lparr>updated = True, posted = [''x''], logged = [''x'']\<rparr>"
  by code_simp

subsection \<open>C8: ties on the timestamp\<close>

text \<open>
  Claim C8. When the two current tuples carry the same timestamp and different PIDs, one
  pass through the loop body sends exactly the smaller PID to the trigger and advances the
  side that held it: if that side's iterator still has an entry, the entry becomes that
  side's current tuple, the iterator moves past it and the loop goes on; if the iterator
  is exhausted, the loop ends with \<^verbatim>\<open>StopIteration\<close>. The other side keeps its current
  tuple and its iterator. One of the two sides always holds the smaller PID, so no such
  pair is passed over.
\<close>

theorem tie_break:
  assumes "snd (ri_result s) = snd (solr_result s)"
    and "fst (ri_result s) \<noteq> fst (solr_result s)"
  shows "if fst (ri_result s) < fst (solr_result s)
         then loop_body trig s = ri_next (flag trig (fst (ri_result s)) s)
            \<and> posted (gs (state_of (loop_body trig s))) = posted (gs s) @ [fst (ri_result s)]
            \<and> solr_result (state_of (loop_body trig s)) = solr_result s
            \<and> solr (state_of (loop_body trig s)) = solr s
            \<and> (\<forall>r rest e. ri s = (r # rest, e) \<longrightarrow>
                  loop_body trig s = Continue
                    (s\<lparr>gs := update_pid trig (fst (ri_result s)) (gs s),
                       ri_result := r, ri := (rest, e)\<rparr>))
            \<and> (ri s = ([], StopIteration) \<longrightarrow>
                  loop_body trig s = Caught
                    (s\<lparr>gs := update_pid trig (fst (ri_result s)) (gs s)\<rparr>))
         else fst (solr_result s) < fst (ri_result s)
            \<and> loop_body trig s = solr_next (flag trig (fst (solr_result s)) s)
            \<and> posted (gs (state_of (loop_body trig s))) = posted (gs s) @ [fst (solr_result s)]
            \<and> ri_result (state_of (loop_body trig s)) = ri_result s
            \<and> ri (state_of (loop_body trig s)) = ri s
            \<and> (\<forall>r rest e. solr s = (r # rest, e) \<longrightarrow>
                  loop_body trig s = Continue
                    (s\<lparr>gs := update_pid trig (fst (solr_result s)) (gs s),
                       solr_result := r, solr := (rest, e)\<rparr>))
            \<and> (solr s = ([], StopIteration) \<longrightarrow>
                  loop_body trig s = Caught
                    (s\<lparr>gs := update_pid trig (fst (solr_result s)) (gs s)\<rparr>))"
proof (cases "fst (ri_result s) < fst (solr_result s)")
  case True
  with assms have body: "loop_body trig s = ri_next (flag trig (fst (ri_result s)) s)"
    by (simp add: loop_body_def)
  have other: "solr_result (state_of (ri_next s')) = solr_result s'
      \<and> solr (state_of (ri_next s')) = solr s'" for s'
    by (simp add: ri_next_def split: pull.splits)
  have item: "ri_next (flag trig p s) = Continue
      (s\<lparr>gs := update_pid trig p (gs s), ri_result := r, ri := (rest, e)\<rparr>)"
    if "ri s = (r # rest, e)" for p r rest e
    using that by (simp add: ri_next_def flag_def)
  have stop: "ri_next (flag trig p s) = Caught (s\<lparr>gs := update_pid trig p (gs s)\<rparr>)"
    if "ri s = ([], StopIteration)" for p
    using that by (simp add: ri_next_def flag_def)
  from True body other item stop show ?thesis by (simp add: flag_def)
next
  case False
  with assms have less: "fst (solr_result s) < fst (ri_result s)" by auto
  with assms False have body: "loop_body trig s = solr_next (flag trig (fst (solr_result s)) s)"
    by (simp add: loop_body_def)
  have other: "ri_result (state_of (solr_next s')) = ri_result s'
      \<and> ri (state_of (solr_next s')) = ri s'" for s'
    by (simp add: solr_next_def split: pull.splits)
  have item: "solr_next (flag trig p s) = Continue
      (s\<lparr>gs := update_pid trig p (gs s), solr_result := r, solr := (rest, e)\<rparr>)"
    if "solr s = (r # rest, e)" for p r rest e
    using that by (simp add: solr_next_def flag_def)
  have stop: "solr_next (flag trig p s) = Caught (s\<lparr>gs := update_pid trig p (gs s)\<rparr>)"
    if "solr s = ([], StopIteration)" for p
    using that by (simp add: solr_next_def flag_def)
  from False less body other item stop show ?thesis by (simp add: flag_def)
qed

text \<open>
  The tuples \<open>(a, 1)\<close> and \<open>(b, 1)\<close>, once with \<open>a\<close> on the side of the resource index
  and once on the side of Solr: \<open>a\<close> is sent, the side that held it takes the next entry
  of its iterator, and the other side is untouched.
\<close>

theorem tie_break_witness:
  "loop_body (\<lambda>n p. 200)
     \<lparr>ri_result = (''a'', 1), solr_result = (''b'', 1), ri = ([(''d'', 2)], StopIteration),
      solr = ([(''c'', 1)], StopIteration), gs = gsearch_init\<rparr>
   = Continue
     \<lparr>ri_result = (''d'', 2), solr_result = (''b'', 1), ri = ([], StopIteration),
      solr = ([(''c'', 1)], StopIteration),
      gs = \<lparr>updated = True, posted = [''a''], logged = [''a'']\<rparr>\<rparr>
   \<and> loop_body (\<lambda>n p. 200)
     \<lparr>ri_result = (''b'', 1), solr_result = (''a'', 1), ri = ([(''d'', 2)], StopIteration),
      solr = ([(''c'', 1)], StopIteration), gs = gsearch_init\<rparr>
   = Continue
     \<lparr>ri_result = (''b'', 1), solr_result = (''c'', 1), ri = ([(''d'', 2)], StopIteration),
      solr = ([], StopIteration),
      gs = \<lparr>updated = True, posted = [''a''], logged = [''a'']\<rparr>\<rparr>"
proof -
  let ?s = "\<lparr>ri_result = (''a'', 1), solr_result = (''b'', 1),
      ri = ([(''d'', 2)], StopIteration), solr = ([(''c'', 1)], StopIteration),
      gs = gsearch_init\<rparr>"
  let ?s' = "\<lparr>ri_result = (''b'', 1), solr_result = (''a'', 1),
      ri = ([(''d'', 2)], StopIteration), solr = ([(''c'', 1)], StopIteration),
      gs = gsearch_init\<rparr>"
  have g: "update_pid (\<lambda>n p. 200) ''a'' gsearch_init
      = \<lparr>updated = True, posted = [''a''], logged = [''a'']\<rparr>"
    by code_simp
  have h1: "snd (ri_result ?s) = snd (solr_result ?s)" by simp
  have h2: "fst (ri_result ?s) \<noteq> fst (solr_result ?s)" by simp
  have lt: "fst (ri_result ?s) < fst (solr_result ?s)" by code_simp
  from tie_break [OF h1 h2, of "\<lambda>n p. 200"]
  have "\<forall>r rest e. ri ?s = (r # rest, e) \<longrightarrow>
      loop_body (\<lambda>n p. 200) ?s = Continue
        (?s\<lparr>gs := update_pid (\<lambda>n p. 200) (fst (ri_result ?s)) (gs ?s),
            ri_result := r, ri := (rest, e)\<rparr>)"
    unfolding if_P [OF lt] by blast
  then have one: "loop_body (\<lambda>n p. 200) ?s = Continue
        (?s\<lparr>gs := update_pid (\<lambda>n p. 200) (fst (ri_result ?s)) (gs ?s),
            ri_result := (''d'', 2), ri := ([], StopIteration)\<rparr>)"
    by simp
  have h1': "snd (ri_result ?s') = snd (solr_result ?s')" by simp
  have h2': "fst (ri_result ?s') \<noteq> fst (solr_result ?s')" by simp
  have nlt: "\<not> fst (ri_result ?s') < fst (solr_result ?s')" by code_simp
  from tie_break [OF h1' h2', of "\<lambda>n p. 200"]
  have "\<forall>r rest e. solr ?s' = (r # rest, e) \<longrightarrow>
      loop_body (\<lambda>n p. 200) ?s' = Continue
        (?s'\<lparr>gs := update_pid (\<lambda>n p. 200) (fst (solr_result ?s')) (gs ?s'),
            solr_result := r, solr := (rest, e)\<rparr>)"
    unfolding if_not_P [OF nlt] by blast
  then have two: "loop_body (\<lambda>n p. 200) ?s' = Continue
        (?s'\<lparr>gs := update_pid (\<lambda>n p. 200) (fst (solr_result ?s')) (gs ?s'),
            solr_result := (''c'', 1), solr := ([], StopIteration)\<rparr>)"
    by simp
  from one two show ?thesis by (simp add: g)
qed

subsection \<open>C9: identical streams\<close>

text \<open>
  Claim C9. Whatever the sequence \<open>S\<close> is, sorted or not, a run whose two streams both
  yield \<open>S\<close> sends nothing to the update trigger and ends with \<^verbatim>\<open>exit(0)\<close>; a second run
  on the same streams (with whatever the trigger service would answer then) does the same.
\<close>

theorem identical_inputs_flag_nothing:
  "reconcile trig (S, StopIteration) (S, StopIteration) = Exit 0 gsearch_init
   \<and> reconcile trig' (S, StopIteration) (S, StopIteration) = Exit 0 gsearch_init"
proof -
  have run: "reconcile t (S, StopIteration) (S, StopIteration) = Exit 0 gsearch_init" for t
  proof (cases S)
    case Nil
    then show ?thesis
      by (simp add: reconcile_def try_block_def gsearch_init_def)
  next
    case (Cons x xs)
    from merge_loop_same [of t x xs gsearch_init] obtain r where
      "merge_loop t \<lparr>ri_result = x, solr_result = x, ri = (xs, StopIteration),
          solr = (xs, StopIteration), gs = gsearch_init\<rparr>
       = Caught \<lparr>ri_result = r, solr_result = r, ri = ([], StopIteration),
          solr = ([], StopIteration), gs = gsearch_init\<rparr>" by blast
    with Cons show ?thesis
      by (simp add: reconcile_def try_block_def after_loop_def gsearch_init_def)
  qed
  from run [of trig] run [of trig'] show ?thesis by simp
qed

text \<open>
  Scenario 1 of the specification: \<open>A = [(x, t1)]\<close>, \<open>B = [(x, t1)]\<close>.
\<close>

theorem identical_inputs_flag_nothing_witness:
  "flagged (reconcile (\<lambda>n p. 200) ([(''x'', 1)], StopIteration) ([(''x'', 1)], StopIteration)) = []
   \<and> exit_status (reconcile (\<lambda>n p. 200) ([(''x'', 1)], StopIteration)
        ([(''x'', 1)], StopIteration)) = 0"
  using identical_inputs_flag_nothing [of "\<lambda>n p. 200" "[(''x'', 1)]" "\<lambda>n p. 200"]
  by (simp add: flagged_def gsearch_init_def)

subsection \<open>C10: the flag \<^verbatim>\<open>updated\<close>\<close>

text \<open>
  Claim C10. The flag \<^verbatim>\<open>updated\<close> starts False; \<^verbatim>\<open>update_pid\<close> sets it before it sends
  the request, so it is True after every call whatever the service answers; neither the
  request nor a pass through the loop body nor the whole loop resets it; and a run in which
  a request was sent ends with status 1, also when the service answers every request with
  a failure.
\<close>

theorem updated_is_monotone:
  "\<not> updated gsearch_init
   \<and> update_pid trig pid g = post_update trig pid (mark_updated g)
   \<and> updated (mark_updated g)
   \<and> updated (update_pid trig pid g)
   \<and> (updated g \<longrightarrow> updated (post_update trig pid g))
   \<and> (updated (gs s) \<longrightarrow> updated (gs (state_of (loop_body trig s)))
                       \<and> updated (gs (state_of (merge_loop trig s))))
   \<and> (flagged (main ri_srv solr_srv trig start limit) \<noteq> []
        \<longrightarrow> exit_status (main ri_srv solr_srv trig start limit) = 1)"
proof -
  have "updated (gs s) \<Longrightarrow> updated (gs (state_of (merge_loop trig s)))"
    by (rule merge_loop_invariant [where P = updated]) (rule updated_loop_body)
  moreover have "flagged (main ri_srv solr_srv trig start limit) \<noteq> []
        \<Longrightarrow> exit_status (main ri_srv solr_srv trig start limit) = 1"
    unfolding main_def by (simp add: exit_status_reconcile)
  ultimately show ?thesis
    by (simp add: gsearch_init_def update_pid_def updated_loop_body)
qed

text \<open>
  A run in which the trigger service answers 500 to every request: one request is sent,
  nothing is logged as updated, and the status is 1.
\<close>

theorem updated_is_monotone_witness:
  "flagged (main \<lparr>population = [(''a'', 1), (''b'', 2)], status_code = (\<lambda>n. 200)\<rparr>
       \<lparr>population = [(''b'', 2)], status_code = (\<lambda>n. 200)\<rparr> (\<lambda>n p. 500) None 10) = [''a'']
   \<and> logged (final_gsearch (main \<lparr>population = [(''a'', 1), (''b'', 2)], status_code = (\<lambda>n. 200)\<rparr>
       \<lparr>population = [(''b'', 2)], status_code = (\<lambda>n. 200)\<rparr> (\<lambda>n p. 500) None 10)) = []
   \<and> exit_status (main \<lparr>population = [(''a'', 1), (''b'', 2)], status_code = (\<lambda>n. 200)\<rparr>
       \<lparr>population = [(''b'', 2)], status_code = (\<lambda>n. 200)\<rparr> (\<lambda>n p. 500) None 10) = 1"
proof -
  have f: "flagged (main \<lparr>population = [(''a'', 1), (''b'', 2)], status_code = (\<lambda>n. 200)\<rparr>
       \<lparr>population = [(''b'', 2)], status_code = (\<lambda>n. 200)\<rparr> (\<lambda>n p. 500) None 10) = [''a'']"
    by code_simp
  have l: "logged (final_gsearch (main \<lparr>population = [(''a'', 1), (''b'', 2)], status_code = (\<lambda>n. 200)\<rparr>
       \<lparr>population = [(''b'', 2)], status_code = (\<lambda>n. 200)\<rparr> (\<lambda>n p. 500) None 10)) = []"
    by code_simp
  from f l show ?thesis
    using updated_is_monotone [of "\<lambda>n p. 500" "''a''" gsearch_init
        "\<lparr>ri_result = (''a'', 1), solr_result = (''b'', 2), ri = ([], StopIteration),
          solr = ([], StopIteration), gs = update_pid (\<lambda>n p. 500) ''a'' gsearch_init\<rparr>"
        "\<lparr>population = [(''a'', 1), (''b'', 2)], status_code = (\<lambda>n. 200)\<rparr>"
        "\<lparr>population = [(''b'', 2)], status_code = (\<lambda>n. 200)\<rparr>" None 10]
    by simp
qed

end
